theory Spec2Isabelle
  imports Complex_Main "HOL-Library.Multiset"
begin

section \<open>Retrieval and chunking of the RAG pipeline\<close>

text \<open>
  A shallow embedding of \<^verbatim>\<open>rag.py\<close> (\<^verbatim>\<open>retrieve\<close>, \<^verbatim>\<open>bm25_mix\<close>,
  \<^verbatim>\<open>rerank_cross_encoder\<close>) and of \<^verbatim>\<open>ingest.py\<close> (\<^verbatim>\<open>token_chunk\<close>).

  A Python or numpy float is modelled by the real number it denotes (infinities and NaN
  are not represented), so comparisons are exact; the floating-point operations are
  parameters, see \<open>arith\<close>. Python's unbounded integers are \<^typ>\<open>int\<close>. The libraries the code
  calls (the Chroma collection, the sentence embedder, BM25Okapi, the cross-encoder and
  the tiktoken encoding) are parameters of the functions that use them.
\<close>

subsection \<open>Data\<close>

text \<open>
  The exceptions of the model: \<open>IndexError\<close> and \<open>ValueError\<close> are raised by the
  modelled code and by numpy; \<open>CapabilityError\<close> stands for what a collaborator raises.
\<close>

datatype error = IndexError | ValueError | CapabilityError string

text \<open>
  A hit is the dictionary \<^verbatim>\<open>{"doc": d, "meta": m, "dist": dist}\<close> built in
  \<^verbatim>\<open>retrieve\<close>. The field \<^verbatim>\<open>dist\<close> is called \<open>dist_of\<close> here, since
  \<open>dist\<close> is the metric of the real numbers.
\<close>

record 'm hit =
  doc :: string
  meta :: 'm
  dist_of :: real

text \<open>
  The response of \<^verbatim>\<open>col.query\<close>: one inner list per query embedding. The key
  \<^verbatim>\<open>"distances"\<close> may be absent, the other two are always there.
\<close>

record 'm query_result =
  documents :: "string list list"
  metadatas :: "'m list list"
  distances :: "real list list option"

text \<open>The calls that \<^verbatim>\<open>retrieve\<close> makes to its collaborators, in order.\<close>

datatype call =
    GetCollection
  | GetEmbedder
  | Encode "string list"
  | Query "real list" int

subsection \<open>Python list primitives\<close>

text \<open>\<^verbatim>\<open>xs[0]\<close>: raises IndexError on the empty list.\<close>

definition first :: "'a list \<Rightarrow> error + 'a" where
  "first xs = (case xs of [] \<Rightarrow> Inl IndexError | x # _ \<Rightarrow> Inr x)"

text \<open>
  \<^verbatim>\<open>xs[:k]\<close>: the first \<open>k\<close> elements for \<open>k \<ge> 0\<close>; for a negative \<open>k\<close> all but
  the last \<open>-k\<close> elements.
\<close>

definition py_take :: "int \<Rightarrow> 'a list \<Rightarrow> 'a list" where
  "py_take k xs = (if 0 \<le> k then take (nat k) xs else take (length xs - nat (- k)) xs)"

text \<open>
  \<^verbatim>\<open>min(it, key=f)\<close> and \<^verbatim>\<open>max(it, key=f)\<close> keep the first element seen and
  replace it only by a strictly better one, so the earliest of several best elements
  wins. Both raise on an empty iterable; every use below is guarded by a non-emptiness
  test.
\<close>

primrec min_from :: "('a \<Rightarrow> real) \<Rightarrow> 'a \<Rightarrow> 'a list \<Rightarrow> 'a" where
  "min_from key best [] = best"
| "min_from key best (x # xs) = min_from key (if key x < key best then x else best) xs"

primrec max_from :: "('a \<Rightarrow> real) \<Rightarrow> 'a \<Rightarrow> 'a list \<Rightarrow> 'a" where
  "max_from key best [] = best"
| "max_from key best (x # xs) = max_from key (if key best < key x then x else best) xs"

definition py_min :: "('a \<Rightarrow> real) \<Rightarrow> 'a list \<Rightarrow> 'a" where
  "py_min key xs = min_from key (hd xs) (tl xs)"

definition py_max :: "('a \<Rightarrow> real) \<Rightarrow> 'a list \<Rightarrow> 'a" where
  "py_max key xs = max_from key (hd xs) (tl xs)"

subsection \<open>Floating-point arithmetic\<close>

text \<open>
  The result of a floating-point operation is rounded, and how depends on the precision
  of its operands (Python floats and numpy \<^verbatim>\<open>float64\<close> or \<^verbatim>\<open>float32\<close> values), so
  the operations are parameters of the model: \<open>f_lit\<close> gives the float that a decimal
  literal such as \<^verbatim>\<open>0.2\<close> or \<^verbatim>\<open>1e-9\<close> denotes, \<open>f_add\<close>, \<open>f_sub\<close>, \<open>f_mul\<close> and
  \<open>f_div\<close> are \<^verbatim>\<open>+\<close>, \<^verbatim>\<open>-\<close>, \<^verbatim>\<open>*\<close> and \<^verbatim>\<open>/\<close> on floats, and \<open>f_dot\<close> is
  \<^verbatim>\<open>np.dot\<close> on two rows of an array. Nothing is assumed about them.
\<close>

record arith =
  f_lit :: "real \<Rightarrow> real"
  f_add :: "real \<Rightarrow> real \<Rightarrow> real"
  f_sub :: "real \<Rightarrow> real \<Rightarrow> real"
  f_mul :: "real \<Rightarrow> real \<Rightarrow> real"
  f_div :: "real \<Rightarrow> real \<Rightarrow> real"
  f_dot :: "real list \<Rightarrow> real list \<Rightarrow> real"

text \<open>The arithmetic without rounding, for evaluating the model on concrete inputs.\<close>

definition dot :: "real list \<Rightarrow> real list \<Rightarrow> real" where
  "dot u v = sum_list (map2 (*) u v)"

definition exact :: arith where
  "exact = \<lparr>f_lit = (\<lambda>x. x), f_add = (+), f_sub = (-), f_mul = (*), f_div = (/), f_dot = dot\<rparr>"

subsection \<open>retrieve\<close>

text \<open>\<^verbatim>\<open>n_results=max(k*3 if mmr else k, k)\<close>\<close>

definition n_results :: "int \<Rightarrow> bool \<Rightarrow> int" where
  "n_results k mmr = max (if mmr then k * 3 else k) k"

text \<open>
  Lines 42 to 46: the first inner lists of the response, the distances defaulting to
  \<^verbatim>\<open>[0.0]*len(docs)\<close>, zipped into hits (\<^verbatim>\<open>zip\<close> stops at the shortest list).
\<close>

definition make_items :: "'m query_result \<Rightarrow> error + 'm hit list" where
  "make_items res =
     (case first (documents res) of
        Inl e \<Rightarrow> Inl e
      | Inr docs \<Rightarrow>
         (case first (metadatas res) of
            Inl e \<Rightarrow> Inl e
          | Inr metas \<Rightarrow>
             (case (case distances res of
                      Some ds \<Rightarrow> first ds
                    | None \<Rightarrow> Inr (replicate (length docs) 0)) of
                Inl e \<Rightarrow> Inl e
              | Inr dists \<Rightarrow>
                 Inr (map (\<lambda>(d, m, dist). \<lparr>doc = d, meta = m, dist_of = dist\<rparr>)
                        (zip docs (zip metas dists))))))"

text \<open>
  \<^verbatim>\<open>mmr_score\<close> of candidate \<open>i\<close> against the indices selected so far (never empty
  where it is called): \<open>lam*qsim - (1-lam)*diversity\<close> with \<open>lam = 0.75\<close> and
  \<open>qsim = 1 - dist\<close>, in floating-point arithmetic.
\<close>

definition mmr_score ::
  "arith \<Rightarrow> 'm hit list \<Rightarrow> real list list \<Rightarrow> nat list \<Rightarrow> nat \<Rightarrow> real" where
  "mmr_score ar items emb_chunks selected i =
     (let qsim = f_sub ar 1 (dist_of (items ! i));
          diversity = Max (set (map (\<lambda>j. f_dot ar (emb_chunks ! i) (emb_chunks ! j)) selected));
          lam = f_lit ar (75 / 100)
      in f_sub ar (f_mul ar lam qsim) (f_mul ar (f_sub ar 1 lam) diversity))"

text \<open>
  The greedy loop of lines 54 to 70. \<open>cand_idx\<close> is the set \<^verbatim>\<open>set(range(len(items)))\<close>;
  CPython iterates such a set of small non-negative integers in increasing order, also
  after removals, so it is kept as an increasing list and \<^verbatim>\<open>min\<close>/\<^verbatim>\<open>max\<close> scan it
  from the smallest index.
\<close>

function mmr_loop ::
  "arith \<Rightarrow> 'm hit list \<Rightarrow> real list list \<Rightarrow> int \<Rightarrow> nat list \<Rightarrow> nat list \<Rightarrow> nat list"
  where
  "mmr_loop ar items emb_chunks k selected cand_idx =
     (if cand_idx \<noteq> [] \<and> int (length selected) < k then
        (if selected = [] then
           mmr_loop ar items emb_chunks k
             (selected @ [py_min (\<lambda>i. dist_of (items ! i)) cand_idx])
             (remove1 (py_min (\<lambda>i. dist_of (items ! i)) cand_idx) cand_idx)
         else
           mmr_loop ar items emb_chunks k
             (selected @ [py_max (mmr_score ar items emb_chunks selected) cand_idx])
             (remove1 (py_max (mmr_score ar items emb_chunks selected) cand_idx) cand_idx))
      else selected)"
  by pat_completeness auto
termination
proof (relation "measure (\<lambda>(ar, items, emb_chunks, k, selected, cand_idx). length cand_idx)")
  have mn: "min_from key b xs \<in> set (b # xs)" for key :: "nat \<Rightarrow> real" and b xs
    by (induction xs arbitrary: b) auto
  have mx: "max_from key b xs \<in> set (b # xs)" for key :: "nat \<Rightarrow> real" and b xs
    by (induction xs arbitrary: b) auto
  have pmin: "py_min key xs \<in> set xs" if "xs \<noteq> []" for key :: "nat \<Rightarrow> real" and xs
    using that mn [of key "hd xs" "tl xs"] by (cases xs) (auto simp: py_min_def)
  have pmax: "py_max key xs \<in> set xs" if "xs \<noteq> []" for key :: "nat \<Rightarrow> real" and xs
    using that mx [of key "hd xs" "tl xs"] by (cases xs) (auto simp: py_max_def)
  show "wf (measure (\<lambda>(ar :: arith, items :: 'm hit list, emb_chunks :: real list list,
            k :: int, selected :: nat list, cand_idx :: nat list). length cand_idx))"
    by simp
  fix ar :: arith and items :: "'m hit list" and emb_chunks :: "real list list" and k :: int
    and selected cand_idx :: "nat list"
  assume a: "cand_idx \<noteq> [] \<and> int (length selected) < k"
  show "((ar, items, emb_chunks, k, selected @ [py_min (\<lambda>i. dist_of (items ! i)) cand_idx],
          remove1 (py_min (\<lambda>i. dist_of (items ! i)) cand_idx) cand_idx),
         (ar, items, emb_chunks, k, selected, cand_idx))
        \<in> measure (\<lambda>(ar, items, emb_chunks, k, selected, cand_idx). length cand_idx)"
    using a pmin [of cand_idx "\<lambda>i. dist_of (items ! i)"]
    by (simp add: length_remove1)
  show "((ar, items, emb_chunks, k,
          selected @ [py_max (mmr_score ar items emb_chunks selected) cand_idx],
          remove1 (py_max (mmr_score ar items emb_chunks selected) cand_idx) cand_idx),
         (ar, items, emb_chunks, k, selected, cand_idx))
        \<in> measure (\<lambda>(ar, items, emb_chunks, k, selected, cand_idx). length cand_idx)"
    using a pmax [of cand_idx "mmr_score ar items emb_chunks selected"]
    by (simp add: length_remove1)
qed

declare mmr_loop.simps [simp del]

text \<open>
  \<^verbatim>\<open>retrieve(query, k, mmr)\<close>. The collection is the parameter \<open>col_query\<close>, which
  may raise; the embedder is the parameter \<open>embedder\<close>, the row that
  \<^verbatim>\<open>embedder.encode\<close> returns for one text (it returns one row per text, in order);
  \<open>ar\<close> is the arithmetic of \<^verbatim>\<open>mmr_score\<close>. The result is paired with the calls
  made, in the order of the source.
\<close>

definition retrieve ::
  "arith \<Rightarrow> (real list \<Rightarrow> int \<Rightarrow> error + 'm query_result) \<Rightarrow> (string \<Rightarrow> real list) \<Rightarrow>
   string \<Rightarrow> int \<Rightarrow> bool \<Rightarrow> call list \<times> (error + 'm hit list)" where
  "retrieve ar col_query embedder query k mmr =
     (let q_emb = embedder query;
          calls = [GetCollection, GetEmbedder, Encode [query], Query q_emb (n_results k mmr)]
      in case col_query q_emb (n_results k mmr) of
           Inl e \<Rightarrow> (calls, Inl e)
         | Inr res \<Rightarrow>
            (case make_items res of
               Inl e \<Rightarrow> (calls, Inl e)
             | Inr items \<Rightarrow>
                if mmr then
                  (let emb_chunks = map embedder (map doc items);
                       selected = mmr_loop ar items emb_chunks k [] [0..<length items]
                   in (calls @ [Encode (map doc items)], Inr (map (\<lambda>i. items ! i) selected)))
                else (calls, Inr (py_take k (sort_key dist_of items)))))"

subsection \<open>bm25_mix\<close>

text \<open>
  \<^verbatim>\<open>a.argsort()\<close> returns the indices of \<open>a\<close> in an order in which the elements
  ascend. numpy promises nothing about the order of the indices of equal elements for
  its default kind, and that order differs between array lengths and builds. The
  function is therefore a parameter of \<open>bm25_mix\<close>, and \<open>is_argsort\<close> is what numpy
  promises of it.
\<close>

definition is_argsort :: "(real list \<Rightarrow> nat list) \<Rightarrow> bool" where
  "is_argsort argsort \<longleftrightarrow>
     (\<forall>a. mset (argsort a) = mset [0..<length a] \<and> sorted (map (\<lambda>i. a ! i) (argsort a)))"

text \<open>
  One such function: the stable sort of the indices, which leaves the indices of equal
  elements in increasing order, as numpy does on an array of two equal elements.
\<close>

definition argsort_stable :: "real list \<Rightarrow> nat list" where
  "argsort_stable a = sort_key (\<lambda>i. a ! i) [0..<length a]"

text \<open>
  \<^verbatim>\<open>a + b\<close> on one-dimensional arrays: elementwise on equal lengths, an array of
  length one is broadcast, any other pair of shapes raises ValueError.
\<close>

definition np_add :: "arith \<Rightarrow> real list \<Rightarrow> real list \<Rightarrow> error + real list" where
  "np_add ar a b =
     (if length a = length b then Inr (map2 (f_add ar) a b)
      else if length a = 1 then Inr (map (\<lambda>y. f_add ar (hd a) y) b)
      else if length b = 1 then Inr (map (\<lambda>x. f_add ar x (hd b)) a)
      else Inl ValueError)"

text \<open>\<^verbatim>\<open>[hits[i] for i in order]\<close>: IndexError at the first index out of range.\<close>

primrec gather :: "'a list \<Rightarrow> nat list \<Rightarrow> error + 'a list" where
  "gather xs [] = Inr []"
| "gather xs (i # order) =
     (if i < length xs
      then (case gather xs order of Inl e \<Rightarrow> Inl e | Inr ys \<Rightarrow> Inr (xs ! i # ys))
      else Inl IndexError)"

text \<open>
  Lines 85 to 87 of \<^verbatim>\<open>bm25_mix\<close>: the array \<open>mixed\<close> from the BM25 scores and the
  hits, every operation a floating-point one. \<^verbatim>\<open>dist.max()\<close> raises ValueError on an
  empty array. Where \<^verbatim>\<open>dist.max() + 1e-9\<close> is zero numpy divides to an infinity or
  NaN, which the model does not have; distances are not negative, so this does not
  arise.
\<close>

definition mixed_scores ::
  "arith \<Rightarrow> real list \<Rightarrow> 'm hit list \<Rightarrow> real \<Rightarrow> error + real list" where
  "mixed_scores ar bm_scores hits alpha =
     (let dist = map dist_of hits in
      if dist = [] then Inl ValueError
      else
        (let sim = map (\<lambda>d. f_sub ar 1
                           (f_div ar d (f_add ar (Max (set dist)) (f_lit ar (1 / 10 ^ 9))))) dist
         in np_add ar (map (\<lambda>b. f_mul ar alpha b) bm_scores)
              (map (\<lambda>s. f_mul ar (f_sub ar 1 alpha) s) sim)))"

text \<open>
  \<^verbatim>\<open>bm25_mix(query, hits, alpha)\<close>. The parameter \<open>bm25\<close> stands for lines 81 and 82:
  \<^verbatim>\<open>BM25Okapi([c.split() for c in corpus]).get_scores(query.split())\<close>, which may raise
  (it does on an empty corpus); \<open>argsort\<close> is numpy's \<^verbatim>\<open>argsort\<close>, and \<^verbatim>\<open>[::-1]\<close>
  reverses its result.
\<close>

definition bm25_mix ::
  "arith \<Rightarrow> (real list \<Rightarrow> nat list) \<Rightarrow> (string list \<Rightarrow> string \<Rightarrow> error + real list) \<Rightarrow>
   string \<Rightarrow> 'm hit list \<Rightarrow> real \<Rightarrow> error + 'm hit list" where
  "bm25_mix ar argsort bm25 query hits alpha =
     (let corpus = map doc hits in
      case bm25 corpus query of
        Inl e \<Rightarrow> Inl e
      | Inr bm_scores \<Rightarrow>
         (case mixed_scores ar bm_scores hits alpha of
            Inl e \<Rightarrow> Inl e
          | Inr mixed \<Rightarrow> gather hits (rev (argsort mixed))))"

text \<open>The default argument \<^verbatim>\<open>alpha: float = 0.2\<close>.\<close>

definition bm25_mix_default ::
  "arith \<Rightarrow> (real list \<Rightarrow> nat list) \<Rightarrow> (string list \<Rightarrow> string \<Rightarrow> error + real list) \<Rightarrow>
   string \<Rightarrow> 'm hit list \<Rightarrow> error + 'm hit list" where
  "bm25_mix_default ar argsort bm25 query hits =
     bm25_mix ar argsort bm25 query hits (f_lit ar (2 / 10))"

subsection \<open>rerank_cross_encoder\<close>

text \<open>
  \<^verbatim>\<open>sorted(xs, key=f, reverse=True)\<close>: CPython reverses the list, sorts it stably
  ascending and reverses the result.
\<close>

definition sorted_reverse :: "('a \<Rightarrow> real) \<Rightarrow> 'a list \<Rightarrow> 'a list" where
  "sorted_reverse key xs = rev (sort_key key (rev xs))"

text \<open>
  \<^verbatim>\<open>rerank_cross_encoder(query, hits)\<close>. The parameter \<open>predict\<close> is
  \<^verbatim>\<open>CrossEncoder(model_name).predict\<close>, which may raise; \<^verbatim>\<open>zip\<close> stops at the
  shorter of the hits and the scores.
\<close>

definition rerank_cross_encoder ::
  "((string \<times> string) list \<Rightarrow> error + real list) \<Rightarrow> string \<Rightarrow> 'm hit list \<Rightarrow>
   error + 'm hit list" where
  "rerank_cross_encoder predict query hits =
     (let pairs = map (\<lambda>h. (query, doc h)) hits in
      case predict pairs of
        Inl e \<Rightarrow> Inl e
      | Inr scores \<Rightarrow>
         (let ranked = sorted_reverse snd (zip hits scores)
          in Inr (map fst ranked)))"

subsection \<open>token_chunk\<close>

text \<open>\<^verbatim>\<open>xs[i:j]\<close>, with Python's treatment of negative and too large bounds.\<close>

definition py_slice :: "'a list \<Rightarrow> int \<Rightarrow> int \<Rightarrow> 'a list" where
  "py_slice xs i j =
     (let n = int (length xs);
          lo = (if i < 0 then max (i + n) 0 else min i n);
          hi = (if j < 0 then max (j + n) 0 else min j n)
      in take (nat (hi - lo)) (drop (nat lo) xs))"

text \<open>
  The \<^verbatim>\<open>while\<close> loop of \<^verbatim>\<open>token_chunk\<close>. The loop need not end, so it runs on
  fuel: one unit per execution of the loop body, and \<open>None\<close> when the body would run
  with no fuel left. \<open>decode\<close> is \<^verbatim>\<open>enc.decode\<close>.
\<close>

primrec chunk_loop ::
  "nat \<Rightarrow> ('t list \<Rightarrow> string) \<Rightarrow> 't list \<Rightarrow> int \<Rightarrow> int \<Rightarrow> int \<Rightarrow> string list \<Rightarrow>
   string list option" where
  "chunk_loop 0 decode toks max_tokens overlap start chunks =
     (if start < int (length toks) then None else Some chunks)"
| "chunk_loop (Suc fuel) decode toks max_tokens overlap start chunks =
     (if start < int (length toks) then
        (let end = min (start + max_tokens) (int (length toks));
             chunk = decode (py_slice toks start end)
         in if end = int (length toks) then Some (chunks @ [chunk])
            else chunk_loop fuel decode toks max_tokens overlap (max 0 (end - overlap))
                   (chunks @ [chunk]))
      else Some chunks)"

text \<open>\<^verbatim>\<open>token_chunk(text, max_tokens, overlap)\<close>; \<open>encode\<close> is \<^verbatim>\<open>enc.encode\<close>.\<close>

definition token_chunk ::
  "nat \<Rightarrow> (string \<Rightarrow> 't list) \<Rightarrow> ('t list \<Rightarrow> string) \<Rightarrow> string \<Rightarrow> int \<Rightarrow> int \<Rightarrow>
   string list option" where
  "token_chunk fuel encode decode text max_tokens overlap =
     chunk_loop fuel decode (encode text) max_tokens overlap 0 []"

text \<open>
  The same loop recording the window \<open>(start, end)\<close> of every chunk it emits instead
  of the decoded text; \<open>n\<close> is \<^verbatim>\<open>len(toks)\<close>.
\<close>

primrec window_loop :: "nat \<Rightarrow> int \<Rightarrow> int \<Rightarrow> int \<Rightarrow> int \<Rightarrow> (int \<times> int) list option" where
  "window_loop 0 n max_tokens overlap start = (if start < n then None else Some [])"
| "window_loop (Suc fuel) n max_tokens overlap start =
     (if start < n then
        (let end = min (start + max_tokens) n
         in if end = n then Some [(start, end)]
            else map_option ((#) (start, end))
                   (window_loop fuel n max_tokens overlap (max 0 (end - overlap))))
      else Some [])"

text \<open>The bound of the specification on the number of loop iterations.\<close>

definition step_bound :: "int \<Rightarrow> int \<Rightarrow> int \<Rightarrow> nat" where
  "step_bound n max_tokens overlap = nat \<lceil>real_of_int n / real_of_int (max_tokens - overlap)\<rceil>"

subsection \<open>Test doubles\<close>

text \<open>
  A collection over a fixed corpus of texts with their distances to the query: it answers
  with the \<open>n\<close> nearest entries in ascending distance and, as Chroma does, raises when
  \<open>n\<close> is not positive. The second one leaves the distances out of its response.
\<close>

definition stub_query ::
  "(string \<times> real) list \<Rightarrow> real list \<Rightarrow> int \<Rightarrow> error + unit query_result" where
  "stub_query corpus q_emb n =
     (if n \<le> 0 then Inl (CapabilityError ''n_results'')
      else Inr \<lparr>documents = [map fst (take (nat n) (sort_key snd corpus))],
               metadatas = [map (\<lambda>c. ()) (take (nat n) (sort_key snd corpus))],
               distances = Some [map snd (take (nat n) (sort_key snd corpus))]\<rparr>)"

definition stub_query_nodist ::
  "(string \<times> real) list \<Rightarrow> real list \<Rightarrow> int \<Rightarrow> error + unit query_result" where
  "stub_query_nodist corpus q_emb n =
     (if n \<le> 0 then Inl (CapabilityError ''n_results'')
      else Inr \<lparr>documents = [map fst (take (nat n) corpus)],
               metadatas = [map (\<lambda>c. ()) (take (nat n) corpus)],
               distances = None\<rparr>)"

text \<open>An embedder that maps every text to the same unit vector.\<close>

definition stub_embedder :: "string \<Rightarrow> real list" where
  "stub_embedder t = [1, 0]"

text \<open>
  A lexical scorer and a cross-encoder that score a text by its length, one score per
  text.
\<close>

definition stub_bm25 :: "string list \<Rightarrow> string \<Rightarrow> error + real list" where
  "stub_bm25 corpus query = Inr (map (\<lambda>c. real (length c)) corpus)"

definition stub_predict :: "(string \<times> string) list \<Rightarrow> error + real list" where
  "stub_predict pairs = Inr (map (\<lambda>p. real (length (snd p))) pairs)"

text \<open>A tokenizer whose tokens are the characters of the text.\<close>

definition stub_encode :: "string \<Rightarrow> char list" where
  "stub_encode t = t"

definition stub_decode :: "char list \<Rightarrow> string" where
  "stub_decode ts = ts"

text \<open>The corpus of the first end-to-end scenario, and one with two nearest entries.\<close>

definition corpus3 :: "(string \<times> real) list" where
  "corpus3 = [(''c1'', 1 / 10), (''c2'', 2 / 10), (''c3'', 9 / 10)]"

definition corpus_tie :: "(string \<times> real) list" where
  "corpus_tie = [(''c1'', 1 / 10), (''c2'', 1 / 10), (''c3'', 9 / 10)]"

section \<open>Properties\<close>

subsection \<open>The greedy selection loop\<close>

lemma min_from_in: "min_from key b xs \<in> set (b # xs)"
  by (induction xs arbitrary: b) auto

lemma max_from_in: "max_from key b xs \<in> set (b # xs)"
  by (induction xs arbitrary: b) auto

lemma py_min_in: "xs \<noteq> [] \<Longrightarrow> py_min key xs \<in> set xs"
  using min_from_in [of key "hd xs" "tl xs"] by (cases xs) (auto simp: py_min_def)

lemma py_max_in: "xs \<noteq> [] \<Longrightarrow> py_max key xs \<in> set xs"
  using max_from_in [of key "hd xs" "tl xs"] by (cases xs) (auto simp: py_max_def)

lemma mmr_loop_stop:
  "\<not> (cand \<noteq> [] \<and> int (length sel) < k) \<Longrightarrow> mmr_loop ar items emb k sel cand = sel"
  by (subst mmr_loop.simps) auto

lemma remove1_shorter: "b \<in> set xs \<Longrightarrow> length (remove1 b xs) < length xs"
  by (induction xs) auto

lemma mmr_loop_step:
  assumes "cand \<noteq> []" and "int (length sel) < k"
  shows "\<exists>b \<in> set cand.
           mmr_loop ar items emb k sel cand = mmr_loop ar items emb k (sel @ [b]) (remove1 b cand)"
proof (cases "sel = []")
  case True
  have "mmr_loop ar items emb k sel cand =
        mmr_loop ar items emb k (sel @ [py_min (\<lambda>i. dist_of (items ! i)) cand])
          (remove1 (py_min (\<lambda>i. dist_of (items ! i)) cand) cand)"
    using assms True by (subst mmr_loop.simps) simp
  then show ?thesis using py_min_in [OF assms(1)] by blast
next
  case False
  have "mmr_loop ar items emb k sel cand =
        mmr_loop ar items emb k (sel @ [py_max (mmr_score ar items emb sel) cand])
          (remove1 (py_max (mmr_score ar items emb sel) cand) cand)"
    using assms False by (subst mmr_loop.simps) simp
  then show ?thesis using py_max_in [OF assms(1)] by blast
qed

lemma mmr_loop_first:
  assumes "cand \<noteq> []" and "0 < k"
  shows "mmr_loop ar items emb k [] cand =
         mmr_loop ar items emb k [py_min (\<lambda>i. dist_of (items ! i)) cand]
           (remove1 (py_min (\<lambda>i. dist_of (items ! i)) cand) cand)"
  using assms by (subst mmr_loop.simps) simp

lemma mmr_loop_prefix: "\<exists>rest. mmr_loop ar items emb k sel cand = sel @ rest"
proof (induction cand arbitrary: sel rule: length_induct)
  case (1 cand)
  show ?case
  proof (cases "cand \<noteq> [] \<and> int (length sel) < k")
    case False
    then show ?thesis by (simp add: mmr_loop_stop)
  next
    case True
    then obtain b where b: "b \<in> set cand"
      and eq: "mmr_loop ar items emb k sel cand = mmr_loop ar items emb k (sel @ [b]) (remove1 b cand)"
      using mmr_loop_step by blast
    have "length (remove1 b cand) < length cand"
      using b by (rule remove1_shorter)
    with 1 obtain rest where
      "mmr_loop ar items emb k (sel @ [b]) (remove1 b cand) = (sel @ [b]) @ rest"
      by blast
    with eq show ?thesis by simp
  qed
qed

lemma mmr_loop_subset: "set (mmr_loop ar items emb k sel cand) \<subseteq> set sel \<union> set cand"
proof (induction cand arbitrary: sel rule: length_induct)
  case (1 cand)
  show ?case
  proof (cases "cand \<noteq> [] \<and> int (length sel) < k")
    case False
    then show ?thesis by (simp add: mmr_loop_stop)
  next
    case True
    then obtain b where b: "b \<in> set cand"
      and eq: "mmr_loop ar items emb k sel cand = mmr_loop ar items emb k (sel @ [b]) (remove1 b cand)"
      using mmr_loop_step by blast
    have "length (remove1 b cand) < length cand"
      using b by (rule remove1_shorter)
    with 1 have "set (mmr_loop ar items emb k (sel @ [b]) (remove1 b cand))
                 \<subseteq> set (sel @ [b]) \<union> set (remove1 b cand)"
      by blast
    moreover have "set (remove1 b cand) \<subseteq> set cand"
      by (rule set_remove1_subset)
    ultimately show ?thesis using eq b by auto
  qed
qed

lemma mmr_loop_distinct:
  "distinct sel \<Longrightarrow> distinct cand \<Longrightarrow> set sel \<inter> set cand = {} \<Longrightarrow>
   distinct (mmr_loop ar items emb k sel cand)"
proof (induction cand arbitrary: sel rule: length_induct)
  case (1 cand)
  show ?case
  proof (cases "cand \<noteq> [] \<and> int (length sel) < k")
    case False
    with "1.prems" show ?thesis by (simp add: mmr_loop_stop)
  next
    case True
    then obtain b where b: "b \<in> set cand"
      and eq: "mmr_loop ar items emb k sel cand = mmr_loop ar items emb k (sel @ [b]) (remove1 b cand)"
      using mmr_loop_step by blast
    have len: "length (remove1 b cand) < length cand"
      using b by (rule remove1_shorter)
    have d1: "distinct (sel @ [b])"
      using "1.prems" b by auto
    have d2: "distinct (remove1 b cand)"
      using "1.prems" by simp
    have d3: "set (sel @ [b]) \<inter> set (remove1 b cand) = {}"
      using "1.prems" b by auto
    from "1.IH" len d1 d2 d3
    have "distinct (mmr_loop ar items emb k (sel @ [b]) (remove1 b cand))"
      by blast
    with eq show ?thesis by simp
  qed
qed

lemma mmr_loop_length:
  "int (length sel) \<le> k \<Longrightarrow>
   length (mmr_loop ar items emb k sel cand) = min (nat k) (length sel + length cand)"
proof (induction cand arbitrary: sel rule: length_induct)
  case (1 cand)
  show ?case
  proof (cases "cand \<noteq> [] \<and> int (length sel) < k")
    case False
    with "1.prems" show ?thesis by (auto simp: mmr_loop_stop)
  next
    case True
    then obtain b where b: "b \<in> set cand"
      and eq: "mmr_loop ar items emb k sel cand = mmr_loop ar items emb k (sel @ [b]) (remove1 b cand)"
      using mmr_loop_step by blast
    have len: "length (remove1 b cand) < length cand"
      using b by (rule remove1_shorter)
    have sum: "length (sel @ [b]) + length (remove1 b cand) = length sel + length cand"
      using b len by (simp add: length_remove1)
    have "int (length (sel @ [b])) \<le> k"
      using True by simp
    with "1.IH" len
    have "length (mmr_loop ar items emb k (sel @ [b]) (remove1 b cand)) =
          min (nat k) (length (sel @ [b]) + length (remove1 b cand))"
      by blast
    with eq sum show ?thesis by (simp only:)
  qed
qed

lemma min_from_least:
  "\<exists>p \<le> length xs. min_from key b xs = (b # xs) ! p
     \<and> (\<forall>q \<le> length xs. key ((b # xs) ! p) \<le> key ((b # xs) ! q))
     \<and> (\<forall>q < p. key ((b # xs) ! p) < key ((b # xs) ! q))"
proof (induction xs arbitrary: b)
  case Nil
  then show ?case by simp
next
  case (Cons x xs)
  obtain p where p: "p \<le> length xs"
    "min_from key (if key x < key b then x else b) xs = ((if key x < key b then x else b) # xs) ! p"
    "\<forall>q \<le> length xs. key (((if key x < key b then x else b) # xs) ! p)
        \<le> key (((if key x < key b then x else b) # xs) ! q)"
    "\<forall>q < p. key (((if key x < key b then x else b) # xs) ! p)
        < key (((if key x < key b then x else b) # xs) ! q)"
    using Cons.IH [of "if key x < key b then x else b"] by blast
  show ?case
    apply (rule exI [of _ "if p = 0 then (if key x < key b then 1 else 0) else Suc p"])
    using p
    apply (auto simp: nth_Cons split: nat.splits if_splits)
    done
qed

subsection \<open>Claims about retrieve\<close>

text \<open>
  C3 as stated fails: \<open>retrieve\<close> has no check of \<open>k\<close>. With \<open>k = 0\<close> it obtains the
  collection and the embedder, embeds the query and queries the index for 0 results; the
  error comes from the index.
\<close>

theorem retrieve_zero_k_counterexample:
  "fst (retrieve exact (stub_query corpus3) stub_embedder ''q'' 0 False)
     = [GetCollection, GetEmbedder, Encode [''q''], Query [1, 0] 0]
   \<and> snd (retrieve exact (stub_query corpus3) stub_embedder ''q'' 0 False)
     = Inl (CapabilityError ''n_results'')"
  by (simp add: retrieve_def n_results_def stub_query_def stub_embedder_def)

text \<open>
  C3, amended. For every \<open>k\<close>, also \<open>k \<le> 0\<close>, \<open>retrieve\<close> first obtains the
  collection and the embedder, embeds the query and queries the index for
  \<open>max(k*3 if mmr else k, k)\<close> results; an error raised by that query is the result of
  \<open>retrieve\<close>, after these four calls.
\<close>

theorem retrieve_calls_before_result:
  "take 4 (fst (retrieve ar col_query embedder query k mmr)) =
     [GetCollection, GetEmbedder, Encode [query], Query (embedder query) (n_results k mmr)]
   \<and> (\<forall>e. col_query (embedder query) (n_results k mmr) = Inl e \<longrightarrow>
        retrieve ar col_query embedder query k mmr =
          ([GetCollection, GetEmbedder, Encode [query], Query (embedder query) (n_results k mmr)],
           Inl e))"
  by (auto simp: retrieve_def Let_def split: sum.splits)

theorem retrieve_calls_before_result_witness:
  "stub_query corpus3 (stub_embedder ''q'') (n_results (- 1) True)
     = Inl (CapabilityError ''n_results'')
   \<and> retrieve exact (stub_query corpus3) stub_embedder ''q'' (- 1) True =
       ([GetCollection, GetEmbedder, Encode [''q''], Query (stub_embedder ''q'') (- 1)],
        Inl (CapabilityError ''n_results''))"
proof -
  have q: "stub_query corpus3 (stub_embedder ''q'') (n_results (- 1) True)
             = Inl (CapabilityError ''n_results'')"
    by (simp add: stub_query_def n_results_def)
  have n: "n_results (- 1) True = - 1"
    by (simp add: n_results_def)
  show ?thesis
    using q n retrieve_calls_before_result
      [of exact "stub_query corpus3" stub_embedder "''q''" "- 1" True]
    by simp
qed

lemma py_take_nonneg: "0 \<le> k \<Longrightarrow> py_take k xs = take (nat k) xs"
  by (simp add: py_take_def)

text \<open>
  C7. With the diversity stage off and a request size \<open>k \<ge> 0\<close>, \<open>retrieve\<close> returns
  the first \<open>k\<close> of the candidate hits sorted ascending by distance. (The witness is the
  scenario of three chunks at distances 0.1, 0.2 and 0.9 with \<open>k = 2\<close>.)
\<close>

theorem retrieve_without_mmr:
  assumes "col_query (embedder query) (n_results k False) = Inr res"
    and "make_items res = Inr items"
    and "0 \<le> k"
  shows "snd (retrieve ar col_query embedder query k False)
           = Inr (take (nat k) (sort_key dist_of items))
         \<and> sorted (map dist_of (sort_key dist_of items))
         \<and> mset (sort_key dist_of items) = mset items"
  using assms by (simp add: retrieve_def py_take_nonneg)

lemma corpus3_sorted: "sort_key snd corpus3 = corpus3"
  by (simp add: corpus3_def)

lemma stub_query_corpus3:
  "0 < n \<Longrightarrow> stub_query corpus3 q n =
     Inr \<lparr>documents = [map fst (take (nat n) corpus3)],
          metadatas = [map (\<lambda>c. ()) (take (nat n) corpus3)],
          distances = Some [map snd (take (nat n) corpus3)]\<rparr>"
  by (simp add: stub_query_def corpus3_sorted)

lemma take2: "take 2 (x # y # xs) = [x, y]"
  by (simp add: numeral_2_eq_2)

theorem retrieve_without_mmr_witness:
  "stub_query corpus3 (stub_embedder ''q'') (n_results 2 False) =
     Inr \<lparr>documents = [[''c1'', ''c2'']], metadatas = [[(), ()]],
          distances = Some [[1 / 10, 2 / 10]]\<rparr>
   \<and> make_items \<lparr>documents = [[''c1'', ''c2'']], metadatas = [[(), ()]],
          distances = Some [[1 / 10, 2 / 10 :: real]]\<rparr> =
     Inr [\<lparr>doc = ''c1'', meta = (), dist_of = 1 / 10\<rparr>,
          \<lparr>doc = ''c2'', meta = (), dist_of = 2 / 10\<rparr>]
   \<and> (0::int) \<le> 2
   \<and> snd (retrieve exact (stub_query corpus3) stub_embedder ''q'' 2 False) =
     Inr [\<lparr>doc = ''c1'', meta = (), dist_of = 1 / 10\<rparr>,
          \<lparr>doc = ''c2'', meta = (), dist_of = 2 / 10\<rparr>]"
proof -
  have q: "stub_query corpus3 (stub_embedder ''q'') (n_results 2 False) =
     Inr \<lparr>documents = [[''c1'', ''c2'']], metadatas = [[(), ()]],
          distances = Some [[1 / 10, 2 / 10]]\<rparr>"
    by (simp add: stub_query_corpus3 n_results_def) (simp add: corpus3_def take2)
  have m: "make_items \<lparr>documents = [[''c1'', ''c2'']], metadatas = [[(), ()]],
          distances = Some [[1 / 10, 2 / 10 :: real]]\<rparr> =
     Inr [\<lparr>doc = ''c1'', meta = (), dist_of = 1 / 10\<rparr>,
          \<lparr>doc = ''c2'', meta = (), dist_of = 2 / 10\<rparr>]"
    by (simp add: make_items_def first_def)
  have k: "(0::int) \<le> 2" by simp
  show ?thesis
    using q m k
      retrieve_without_mmr
        [where ar = exact, of "stub_query corpus3" stub_embedder "''q''" 2, OF q m k]
    by (simp add: take2)
qed

lemma zip_replicate_zero:
  "map (\<lambda>(d, m, x). \<lparr>doc = d, meta = m, dist_of = x\<rparr>)
       (zip docs (zip metas (replicate (length docs) 0))) =
   map (\<lambda>(d, m). \<lparr>doc = d, meta = m, dist_of = 0\<rparr>) (zip docs metas)"
proof (induction docs arbitrary: metas)
  case Nil
  then show ?case by simp
next
  case (Cons d docs)
  then show ?case by (cases metas) simp_all
qed

lemma make_items_no_distances:
  assumes "distances res = None" and "documents res = docs # ds"
    and "metadatas res = metas # ms"
  shows "make_items res =
         Inr (map (\<lambda>(d, m). \<lparr>doc = d, meta = m, dist_of = 0\<rparr>) (zip docs metas))"
  using assms by (simp add: make_items_def first_def zip_replicate_zero)

lemma set_py_take: "set (py_take k xs) \<subseteq> set xs"
  by (auto simp: py_take_def dest: in_set_takeD)

lemma retrieve_subset:
  assumes "snd (retrieve ar col_query embedder query k mmr) = Inr out"
  shows "\<exists>res items. col_query (embedder query) (n_results k mmr) = Inr res
           \<and> make_items res = Inr items \<and> set out \<subseteq> set items"
proof -
  obtain res where res: "col_query (embedder query) (n_results k mmr) = Inr res"
    using assms by (cases "col_query (embedder query) (n_results k mmr)")
      (auto simp: retrieve_def Let_def)
  obtain items where items: "make_items res = Inr items"
    using assms res by (cases "make_items res") (auto simp: retrieve_def Let_def)
  show ?thesis
  proof (cases mmr)
    case False
    with assms res items have "out = py_take k (sort_key dist_of items)"
      by (simp add: retrieve_def)
    with set_py_take [of k "sort_key dist_of items"] res items show ?thesis
      by auto
  next
    case True
    with assms res items have out:
        "out = map (\<lambda>i. items ! i)
           (mmr_loop ar items (map embedder (map doc items)) k [] [0..<length items])"
      by (simp add: retrieve_def Let_def)
    have "set (mmr_loop ar items (map embedder (map doc items)) k [] [0..<length items])
            \<subseteq> {..<length items}"
      using mmr_loop_subset
        [of ar items "map embedder (map doc items)" k "[]" "[0..<length items]"]
      by auto
    with out have "set out \<subseteq> set items"
      by auto
    with res items show ?thesis by blast
  qed
qed

lemma retrieve_result:
  assumes "col_query (embedder query) (n_results k mmr) = Inr res"
    and "make_items res = Inr items"
  shows "snd (retrieve ar col_query embedder query k mmr) =
         Inr (if mmr
              then map (\<lambda>i. items ! i)
                     (mmr_loop ar items (map embedder (map doc items)) k [] [0..<length items])
              else py_take k (sort_key dist_of items))"
  using assms by (simp add: retrieve_def Let_def)

text \<open>
  C8. The candidate fetch asks the index for \<open>n_results k mmr\<close> results, which is
  \<open>k * 3\<close> when the diversity stage is on and \<open>k\<close> otherwise (for a request size
  \<open>k \<ge> 0\<close>) and never less than \<open>k\<close>: an error of the index at exactly that request is
  the result of \<open>retrieve\<close>; a response to exactly that request is all that \<open>retrieve\<close>
  takes from the index; and the hits returned are candidates of that response,
  \<open>min(k, number of candidates)\<close> of them for \<open>k \<ge> 0\<close>. The request is the fourth call
  that \<open>retrieve\<close> makes.
\<close>

theorem retrieve_candidate_count:
  "(\<forall>e. col_query (embedder query) (n_results k mmr) = Inl e \<longrightarrow>
        retrieve ar col_query embedder query k mmr =
          ([GetCollection, GetEmbedder, Encode [query], Query (embedder query) (n_results k mmr)],
           Inl e))
   \<and> (\<forall>res. col_query (embedder query) (n_results k mmr) = Inr res \<longrightarrow>
          retrieve ar col_query embedder query k mmr =
            retrieve ar (\<lambda>q n. Inr res) embedder query k mmr
        \<and> (\<forall>items. make_items res = Inr items \<longrightarrow>
              (\<exists>out. snd (retrieve ar col_query embedder query k mmr) = Inr out
                 \<and> set out \<subseteq> set items
                 \<and> (0 \<le> k \<longrightarrow> length out = min (nat k) (length items)))))
   \<and> fst (retrieve ar col_query embedder query k mmr) ! 3
        = Query (embedder query) (n_results k mmr)
   \<and> k \<le> n_results k mmr
   \<and> (0 \<le> k \<longrightarrow> n_results k mmr = (if mmr then k * 3 else k))"
proof (intro conjI allI impI)
  fix e
  assume "col_query (embedder query) (n_results k mmr) = Inl e"
  then show "retrieve ar col_query embedder query k mmr =
          ([GetCollection, GetEmbedder, Encode [query], Query (embedder query) (n_results k mmr)],
           Inl e)"
    by (simp add: retrieve_def)
next
  fix res
  assume "col_query (embedder query) (n_results k mmr) = Inr res"
  then show "retrieve ar col_query embedder query k mmr =
            retrieve ar (\<lambda>q n. Inr res) embedder query k mmr"
    by (simp add: retrieve_def)
next
  fix res items
  assume res: "col_query (embedder query) (n_results k mmr) = Inr res"
    and items: "make_items res = Inr items"
  let ?sel = "mmr_loop ar items (map embedder (map doc items)) k [] [0..<length items]"
  let ?out = "if mmr then map (\<lambda>i. items ! i) ?sel else py_take k (sort_key dist_of items)"
  have out: "snd (retrieve ar col_query embedder query k mmr) = Inr ?out"
    using res items by (rule retrieve_result)
  have sub: "set ?out \<subseteq> set items"
    using retrieve_subset [OF out] res items by simp
  have len: "length ?out = min (nat k) (length items)" if "0 \<le> k"
  proof (cases mmr)
    case True
    have "length ?sel = min (nat k) (length items)"
      using that
        mmr_loop_length [of "[]" k ar items "map embedder (map doc items)" "[0..<length items]"]
      by simp
    with True show ?thesis by simp
  next
    case False
    with that show ?thesis by (simp add: py_take_nonneg)
  qed
  show "\<exists>out. snd (retrieve ar col_query embedder query k mmr) = Inr out
          \<and> set out \<subseteq> set items
          \<and> (0 \<le> k \<longrightarrow> length out = min (nat k) (length items))"
    using out sub len by blast
next
  show "fst (retrieve ar col_query embedder query k mmr) ! 3
        = Query (embedder query) (n_results k mmr)"
    by (auto simp: retrieve_def Let_def split: sum.splits)
next
  show "k \<le> n_results k mmr"
    by (simp add: n_results_def)
next
  assume "0 \<le> k"
  then show "n_results k mmr = (if mmr then k * 3 else k)"
    by (simp add: n_results_def)
qed

theorem retrieve_candidate_count_witness:
  "stub_query corpus3 (stub_embedder ''q'') (n_results 0 True)
     = Inl (CapabilityError ''n_results'')
   \<and> retrieve exact (stub_query corpus3) stub_embedder ''q'' 0 True =
       ([GetCollection, GetEmbedder, Encode [''q''], Query (stub_embedder ''q'') 0],
        Inl (CapabilityError ''n_results''))
   \<and> stub_query corpus3 (stub_embedder ''q'') (n_results 2 True) =
       Inr \<lparr>documents = [[''c1'', ''c2'', ''c3'']], metadatas = [[(), (), ()]],
            distances = Some [[1 / 10, 2 / 10, 9 / 10]]\<rparr>
   \<and> make_items \<lparr>documents = [[''c1'', ''c2'', ''c3'']], metadatas = [[(), (), ()]],
            distances = Some [[1 / 10, 2 / 10, 9 / 10 :: real]]\<rparr> =
       Inr [\<lparr>doc = ''c1'', meta = (), dist_of = 1 / 10\<rparr>,
            \<lparr>doc = ''c2'', meta = (), dist_of = 2 / 10\<rparr>,
            \<lparr>doc = ''c3'', meta = (), dist_of = 9 / 10\<rparr>]
   \<and> (0::int) \<le> 2 \<and> n_results 2 True = 6 \<and> n_results 2 False = 2
   \<and> retrieve exact (stub_query corpus3) stub_embedder ''q'' 2 True =
       retrieve exact
         (\<lambda>q n. Inr \<lparr>documents = [[''c1'', ''c2'', ''c3'']], metadatas = [[(), (), ()]],
                      distances = Some [[1 / 10, 2 / 10, 9 / 10]]\<rparr>)
         stub_embedder ''q'' 2 True
   \<and> (\<exists>out. snd (retrieve exact (stub_query corpus3) stub_embedder ''q'' 2 True) = Inr out
         \<and> set out \<subseteq> set [\<lparr>doc = ''c1'', meta = (), dist_of = 1 / 10\<rparr>,
                             \<lparr>doc = ''c2'', meta = (), dist_of = 2 / 10\<rparr>,
                             \<lparr>doc = ''c3'', meta = (), dist_of = 9 / 10\<rparr>]
         \<and> length out = 2)"
proof -
  let ?res = "\<lparr>documents = [[''c1'', ''c2'', ''c3'']], metadatas = [[(), (), ()]],
                distances = Some [[1 / 10, 2 / 10, 9 / 10 :: real]]\<rparr>"
  let ?items = "[\<lparr>doc = ''c1'', meta = (), dist_of = 1 / 10 :: real\<rparr>,
                 \<lparr>doc = ''c2'', meta = (), dist_of = 2 / 10\<rparr>,
                 \<lparr>doc = ''c3'', meta = (), dist_of = 9 / 10\<rparr>]"
  have n0: "n_results 0 True = 0" and n2: "n_results 2 True = 6" and n2f: "n_results 2 False = 2"
    by (simp_all add: n_results_def)
  have e: "stub_query corpus3 (stub_embedder ''q'') (n_results 0 True)
             = Inl (CapabilityError ''n_results'')"
    by (simp add: stub_query_def n0)
  have q: "stub_query corpus3 (stub_embedder ''q'') (n_results 2 True) = Inr ?res"
    by (simp add: stub_query_corpus3 n2) (simp add: corpus3_def)
  have m: "make_items ?res = Inr ?items"
    by (simp add: make_items_def first_def)
  have k: "(0::int) \<le> 2" by simp
  note t0 = retrieve_candidate_count [of "stub_query corpus3" stub_embedder "''q''" 0 True exact]
  note t2 = retrieve_candidate_count [of "stub_query corpus3" stub_embedder "''q''" 2 True exact]
  have r0: "retrieve exact (stub_query corpus3) stub_embedder ''q'' 0 True =
       ([GetCollection, GetEmbedder, Encode [''q''], Query (stub_embedder ''q'') 0],
        Inl (CapabilityError ''n_results''))"
    using t0 e n0 by simp
  have r2: "retrieve exact (stub_query corpus3) stub_embedder ''q'' 2 True =
       retrieve exact (\<lambda>q n. Inr ?res) stub_embedder ''q'' 2 True"
    using t2 q by blast
  obtain out where out:
      "snd (retrieve exact (stub_query corpus3) stub_embedder ''q'' 2 True) = Inr out"
      "set out \<subseteq> set ?items"
      "0 \<le> (2::int) \<longrightarrow> length out = min (nat 2) (length ?items)"
    using t2 q m by blast
  from out(3) have "length out = 2"
    by simp
  with out(1,2) have o2:
      "\<exists>out. snd (retrieve exact (stub_query corpus3) stub_embedder ''q'' 2 True)
         = Inr out \<and> set out \<subseteq> set ?items \<and> length out = 2"
    by blast
  show ?thesis
    using e r0 q m k n2 n2f r2 o2 by blast
qed

text \<open>
  C9. When the response of the index has no distances (and has its documents and
  metadatas), every candidate hit is built with distance 0, \<open>retrieve\<close> returns, and every
  hit it returns has distance 0, with the diversity stage on or off.
\<close>

theorem retrieve_missing_distances:
  assumes "col_query (embedder query) (n_results k mmr) = Inr res"
    and "distances res = None"
    and "documents res = docs # ds"
    and "metadatas res = metas # ms"
  shows "make_items res =
           Inr (map (\<lambda>(d, m). \<lparr>doc = d, meta = m, dist_of = 0\<rparr>) (zip docs metas))
         \<and> (\<exists>out. snd (retrieve ar col_query embedder query k mmr) = Inr out
               \<and> (\<forall>h \<in> set out. dist_of h = 0))"
proof -
  let ?items = "map (\<lambda>(d, m). \<lparr>doc = d, meta = m, dist_of = (0::real)\<rparr>) (zip docs metas)"
  have items: "make_items res = Inr ?items"
    using assms(2-4) by (rule make_items_no_distances)
  obtain out where out: "snd (retrieve ar col_query embedder query k mmr) = Inr out"
    using assms(1) items by (cases mmr) (simp_all add: retrieve_def Let_def)
  from retrieve_subset [OF out] assms(1) items have "set out \<subseteq> set ?items"
    by simp
  then have "\<forall>h \<in> set out. dist_of h = 0"
    by auto
  with items out show ?thesis by blast
qed

theorem retrieve_missing_distances_witness:
  "stub_query_nodist corpus3 (stub_embedder ''q'') (n_results 2 False) =
     Inr \<lparr>documents = [[''c1'', ''c2'']], metadatas = [[(), ()]], distances = None\<rparr>
   \<and> distances \<lparr>documents = [[''c1'', ''c2'']], metadatas = [[(), ()]],
        distances = None\<rparr> = None
   \<and> snd (retrieve exact (stub_query_nodist corpus3) stub_embedder ''q'' 2 False) =
       Inr [\<lparr>doc = ''c1'', meta = (), dist_of = 0\<rparr>, \<lparr>doc = ''c2'', meta = (), dist_of = 0\<rparr>]
   \<and> (\<exists>out. snd (retrieve exact (stub_query_nodist corpus3) stub_embedder ''q'' 2 False) = Inr out
         \<and> (\<forall>h \<in> set out. dist_of h = 0))"
proof -
  let ?res = "\<lparr>documents = [[''c1'', ''c2'']], metadatas = [[(), ()]],
                distances = None\<rparr> :: unit query_result"
  have q: "stub_query_nodist corpus3 (stub_embedder ''q'') (n_results 2 False) = Inr ?res"
    by (simp add: stub_query_nodist_def n_results_def corpus3_def take2)
  have d: "distances ?res = None" by simp
  have docs: "documents ?res = [''c1'', ''c2''] # []" by simp
  have metas: "metadatas ?res = [(), ()] # []" by simp
  have r: "snd (retrieve exact (stub_query_nodist corpus3) stub_embedder ''q'' 2 False) =
       Inr [\<lparr>doc = ''c1'', meta = (), dist_of = 0\<rparr>, \<lparr>doc = ''c2'', meta = (), dist_of = 0\<rparr>]"
    using q by (simp add: retrieve_def make_items_def first_def py_take_def take2)
  show ?thesis
    using q d r
      retrieve_missing_distances
        [where ar = exact, of "stub_query_nodist corpus3" stub_embedder "''q''" 2 False ?res,
          OF q d docs metas]
    by simp
qed

lemma py_min_upt:
  assumes "0 < n"
  shows "py_min key [0..<n] < n
         \<and> (\<forall>j < n. key (py_min key [0..<n]) \<le> key j)
         \<and> (\<forall>j < py_min key [0..<n]. key (py_min key [0..<n]) < key j)"
proof -
  have split: "[0..<n] = 0 # [1..<n]"
    using assms by (simp add: upt_conv_Cons)
  obtain p where p: "p \<le> length [1..<n]"
    "min_from key 0 [1..<n] = (0 # [1..<n]) ! p"
    "\<forall>q \<le> length [1..<n]. key ((0 # [1..<n]) ! p) \<le> key ((0 # [1..<n]) ! q)"
    "\<forall>q < p. key ((0 # [1..<n]) ! p) < key ((0 # [1..<n]) ! q)"
    using min_from_least [of "[1..<n]" key 0] by blast
  have nth: "(0 # [1..<n]) ! q = q" if "q < n" for q
    using that split nth_upt [of 0 q n] by simp
  have pn: "p < n" using p(1) assms by simp
  have pm: "py_min key [0..<n] = p"
    using p(2) nth [OF pn] split by (simp add: py_min_def)
  show ?thesis
    using p(3,4) pn nth pm assms by auto
qed

text \<open>
  C2. With the diversity stage on and a request size \<open>k \<ge> 0\<close>, \<open>retrieve\<close> returns
  the candidates at the selected indices, where no index is selected twice, every
  selected index is the index of a candidate, exactly \<open>min(k, number of candidates)\<close>
  are selected, and (for \<open>k > 0\<close> and a non-empty candidate list) the first one selected
  has the minimum distance and is the earliest candidate with that distance.
\<close>

theorem mmr_selection:
  assumes "col_query (embedder query) (n_results k True) = Inr res"
    and "make_items res = Inr items"
    and "0 \<le> k"
  shows "\<exists>selected.
           snd (retrieve ar col_query embedder query k True) = Inr (map (\<lambda>i. items ! i) selected)
         \<and> distinct selected
         \<and> set selected \<subseteq> {..<length items}
         \<and> length selected = min (nat k) (length items)
         \<and> (0 < k \<and> items \<noteq> [] \<longrightarrow>
              hd selected < length items
            \<and> (\<forall>j < length items. dist_of (items ! hd selected) \<le> dist_of (items ! j))
            \<and> (\<forall>j < hd selected. dist_of (items ! hd selected) < dist_of (items ! j)))"
proof -
  let ?emb = "map embedder (map doc items)"
  let ?key = "\<lambda>i. dist_of (items ! i)"
  let ?sel = "mmr_loop ar items ?emb k [] [0..<length items]"
  have r: "snd (retrieve ar col_query embedder query k True) = Inr (map (\<lambda>i. items ! i) ?sel)"
    using assms(1,2) by (simp add: retrieve_def Let_def)
  have d: "distinct ?sel"
    by (rule mmr_loop_distinct) simp_all
  have s: "set ?sel \<subseteq> {..<length items}"
    using mmr_loop_subset [of ar items ?emb k "[]" "[0..<length items]"] by auto
  have l: "length ?sel = min (nat k) (length items)"
    using assms(3) mmr_loop_length [of "[]" k ar items ?emb "[0..<length items]"] by simp
  have f: "hd ?sel = py_min ?key [0..<length items]" if "0 < k" "items \<noteq> []"
  proof -
    have ne: "[0..<length items] \<noteq> []" using that(2) by simp
    obtain rest where
      "mmr_loop ar items ?emb k [py_min ?key [0..<length items]]
         (remove1 (py_min ?key [0..<length items]) [0..<length items])
       = [py_min ?key [0..<length items]] @ rest"
      using mmr_loop_prefix by blast
    then show ?thesis
      using mmr_loop_first [OF ne that(1), of ar items ?emb] by simp
  qed
  have m: "hd ?sel < length items
            \<and> (\<forall>j < length items. ?key (hd ?sel) \<le> ?key j)
            \<and> (\<forall>j < hd ?sel. ?key (hd ?sel) < ?key j)" if "0 < k" "items \<noteq> []"
    using py_min_upt [of "length items" ?key] f [OF that] that(2) by simp
  show ?thesis
    using r d s l m by blast
qed

theorem mmr_selection_witness:
  "stub_query corpus_tie (stub_embedder ''q'') (n_results 2 True) =
     Inr \<lparr>documents = [[''c1'', ''c2'', ''c3'']], metadatas = [[(), (), ()]],
          distances = Some [[1 / 10, 1 / 10, 9 / 10]]\<rparr>
   \<and> make_items \<lparr>documents = [[''c1'', ''c2'', ''c3'']], metadatas = [[(), (), ()]],
          distances = Some [[1 / 10, 1 / 10, 9 / 10 :: real]]\<rparr> =
     Inr [\<lparr>doc = ''c1'', meta = (), dist_of = 1 / 10\<rparr>,
          \<lparr>doc = ''c2'', meta = (), dist_of = 1 / 10\<rparr>,
          \<lparr>doc = ''c3'', meta = (), dist_of = 9 / 10\<rparr>]
   \<and> (0::int) \<le> 2
   \<and> snd (retrieve exact (stub_query corpus_tie) stub_embedder ''q'' 2 True) =
     Inr [\<lparr>doc = ''c1'', meta = (), dist_of = 1 / 10\<rparr>,
          \<lparr>doc = ''c2'', meta = (), dist_of = 1 / 10\<rparr>]
   \<and> (\<exists>selected.
         snd (retrieve exact (stub_query corpus_tie) stub_embedder ''q'' 2 True) =
           Inr (map (\<lambda>i. [\<lparr>doc = ''c1'', meta = (), dist_of = 1 / 10\<rparr>,
                           \<lparr>doc = ''c2'', meta = (), dist_of = 1 / 10\<rparr>,
                           \<lparr>doc = ''c3'', meta = (), dist_of = 9 / 10\<rparr>] ! i) selected)
       \<and> distinct selected \<and> length selected = 2 \<and> hd selected < 3)"
proof -
  let ?res = "\<lparr>documents = [[''c1'', ''c2'', ''c3'']], metadatas = [[(), (), ()]],
          distances = Some [[1 / 10, 1 / 10, 9 / 10 :: real]]\<rparr>"
  let ?items = "[\<lparr>doc = ''c1'', meta = (), dist_of = 1 / 10 :: real\<rparr>,
          \<lparr>doc = ''c2'', meta = (), dist_of = 1 / 10\<rparr>,
          \<lparr>doc = ''c3'', meta = (), dist_of = 9 / 10\<rparr>]"
  have q: "stub_query corpus_tie (stub_embedder ''q'') (n_results 2 True) = Inr ?res"
    by (simp add: stub_query_def n_results_def corpus_tie_def)
  have m: "make_items ?res = Inr ?items"
    by (simp add: make_items_def first_def)
  have k: "(0::int) \<le> 2" by simp
  have sel: "mmr_loop exact ?items (map stub_embedder (map doc ?items)) 2 [] [0..<length ?items]
             = [0, 1]"
    by (simp add: upt_rec mmr_loop.simps py_min_def py_max_def mmr_score_def dot_def
        exact_def stub_embedder_def)
  have r: "snd (retrieve exact (stub_query corpus_tie) stub_embedder ''q'' 2 True) =
     Inr [\<lparr>doc = ''c1'', meta = (), dist_of = 1 / 10\<rparr>,
          \<lparr>doc = ''c2'', meta = (), dist_of = 1 / 10\<rparr>]"
    by (simp only: retrieve_def Let_def q m sel sum.case if_True snd_conv) simp
  have "\<exists>selected.
         snd (retrieve exact (stub_query corpus_tie) stub_embedder ''q'' 2 True) =
           Inr (map (\<lambda>i. ?items ! i) selected)
       \<and> distinct selected \<and> length selected = 2 \<and> hd selected < 3"
    using mmr_selection
        [where ar = exact, of "stub_query corpus_tie" stub_embedder "''q''" 2 ?res ?items,
          OF q m k]
    by auto
  with q m k r show ?thesis by blast
qed

subsection \<open>Claims about rerank_cross_encoder\<close>

lemma sorted_reverse_mset: "mset (sorted_reverse key xs) = mset xs"
  by (simp add: sorted_reverse_def)

lemma sorted_reverse_desc: "sorted_wrt (\<lambda>a b. key b \<le> key a) (sorted_reverse key xs)"
proof -
  have "sorted (map key (sort_key key (rev xs)))"
    by simp
  then have "sorted_wrt (\<lambda>a b. key a \<le> key b) (sort_key key (rev xs))"
    by (simp add: sorted_map)
  then show ?thesis
    by (simp add: sorted_reverse_def sorted_wrt_rev)
qed

lemma sorted_reverse_stable:
  "filter (\<lambda>y. key y = v) (sorted_reverse key xs) = filter (\<lambda>y. key y = v) xs"
proof -
  have "filter (\<lambda>y. key y = v) (sorted_reverse key xs) =
        rev (filter (\<lambda>y. key y = v) (sort_key key (rev xs)))"
    by (simp add: sorted_reverse_def rev_filter)
  also have "\<dots> = rev (filter (\<lambda>y. key y = v) (rev xs))"
    by (simp only: sort_key_stable)
  also have "\<dots> = filter (\<lambda>y. key y = v) xs"
    by (simp add: rev_filter)
  finally show ?thesis .
qed

text \<open>
  C6. When the cross-encoder returns one score per hit, \<open>rerank_cross_encoder\<close> returns
  the hits of a reordering of the (hit, score) pairs that is sorted descending by score
  and keeps pairs of equal score in their order before the stage; the hits returned are,
  as a multiset and as a set, exactly the hits given.
\<close>

theorem rerank_stable_permutation:
  assumes "predict (map (\<lambda>h. (query, doc h)) hits) = Inr scores"
    and "length scores = length hits"
  shows "\<exists>ranked.
           rerank_cross_encoder predict query hits = Inr (map fst ranked)
         \<and> mset ranked = mset (zip hits scores)
         \<and> sorted_wrt (\<lambda>p q. snd q \<le> snd p) ranked
         \<and> (\<forall>v. filter (\<lambda>p. snd p = v) ranked = filter (\<lambda>p. snd p = v) (zip hits scores))
         \<and> mset (map fst ranked) = mset hits
         \<and> set (map fst ranked) = set hits
         \<and> length (map fst ranked) = length hits"
proof -
  let ?ranked = "sorted_reverse snd (zip hits scores)"
  have r: "rerank_cross_encoder predict query hits = Inr (map fst ?ranked)"
    using assms(1) by (simp add: rerank_cross_encoder_def)
  have m: "mset ?ranked = mset (zip hits scores)"
    by (rule sorted_reverse_mset)
  have "mset (map fst ?ranked) = image_mset fst (mset (zip hits scores))"
    using m by (metis mset_map)
  also have "\<dots> = mset (map fst (zip hits scores))"
    by simp
  also have "\<dots> = mset hits"
    using assms(2) by simp
  finally have mh: "mset (map fst ?ranked) = mset hits" .
  have sh: "set (map fst ?ranked) = set hits"
    using mh by (rule mset_eq_setD)
  have lh: "length (map fst ?ranked) = length hits"
    using mh by (rule mset_eq_length)
  show ?thesis
    using r m sorted_reverse_desc [of snd "zip hits scores"]
      sorted_reverse_stable [of snd _ "zip hits scores"] mh sh lh
    by blast
qed

theorem rerank_stable_permutation_witness:
  "stub_predict (map (\<lambda>h. (''q'', doc h))
       [\<lparr>doc = ''aa'', meta = (), dist_of = 0\<rparr>, \<lparr>doc = ''b'', meta = (), dist_of = 0\<rparr>,
        \<lparr>doc = ''cc'', meta = (), dist_of = 0\<rparr>]) = Inr [2, 1, 2]
   \<and> length [2, 1, 2 :: real] =
       length [\<lparr>doc = ''aa'', meta = (), dist_of = 0 :: real\<rparr>,
               \<lparr>doc = ''b'', meta = (), dist_of = 0\<rparr>, \<lparr>doc = ''cc'', meta = (), dist_of = 0\<rparr>]
   \<and> rerank_cross_encoder stub_predict ''q''
       [\<lparr>doc = ''aa'', meta = (), dist_of = 0\<rparr>, \<lparr>doc = ''b'', meta = (), dist_of = 0\<rparr>,
        \<lparr>doc = ''cc'', meta = (), dist_of = 0\<rparr>] =
       Inr [\<lparr>doc = ''aa'', meta = (), dist_of = 0\<rparr>, \<lparr>doc = ''cc'', meta = (), dist_of = 0\<rparr>,
            \<lparr>doc = ''b'', meta = (), dist_of = 0\<rparr>]
   \<and> (\<exists>ranked :: (unit hit \<times> real) list.
         rerank_cross_encoder stub_predict ''q''
           [\<lparr>doc = ''aa'', meta = (), dist_of = 0\<rparr>, \<lparr>doc = ''b'', meta = (), dist_of = 0\<rparr>,
            \<lparr>doc = ''cc'', meta = (), dist_of = 0\<rparr>] = Inr (map fst ranked)
       \<and> sorted_wrt (\<lambda>p q. snd q \<le> snd p) ranked
       \<and> length (map fst ranked) = 3)"
proof -
  let ?hits = "[\<lparr>doc = ''aa'', meta = (), dist_of = 0 :: real\<rparr>,
                \<lparr>doc = ''b'', meta = (), dist_of = 0\<rparr>, \<lparr>doc = ''cc'', meta = (), dist_of = 0\<rparr>]"
  have p: "stub_predict (map (\<lambda>h. (''q'', doc h)) ?hits) = Inr [2, 1, 2]"
    by (simp add: stub_predict_def)
  have l: "length [2, 1, 2 :: real] = length ?hits"
    by simp
  have r: "rerank_cross_encoder stub_predict ''q'' ?hits =
       Inr [\<lparr>doc = ''aa'', meta = (), dist_of = 0\<rparr>, \<lparr>doc = ''cc'', meta = (), dist_of = 0\<rparr>,
            \<lparr>doc = ''b'', meta = (), dist_of = 0\<rparr>]"
    by (simp add: rerank_cross_encoder_def stub_predict_def sorted_reverse_def)
  obtain ranked :: "(unit hit \<times> real) list" where
    "rerank_cross_encoder stub_predict ''q'' ?hits = Inr (map fst ranked)"
    "sorted_wrt (\<lambda>p q. snd q \<le> snd p) ranked"
    "length (map fst ranked) = length ?hits"
    using rerank_stable_permutation [of stub_predict "''q''" ?hits "[2, 1, 2]", OF p l]
    by blast
  then have "\<exists>ranked :: (unit hit \<times> real) list.
         rerank_cross_encoder stub_predict ''q'' ?hits = Inr (map fst ranked)
       \<and> sorted_wrt (\<lambda>p q. snd q \<le> snd p) ranked
       \<and> length (map fst ranked) = 3"
    by (intro exI [of _ ranked]) simp
  with p l r show ?thesis by blast
qed

subsection \<open>Claims about bm25_mix\<close>

lemma gather_map:
  "\<forall>i \<in> set order. i < length xs \<Longrightarrow> gather xs order = Inr (map (\<lambda>i. xs ! i) order)"
  by (induction order) simp_all

lemma is_argsort_stable: "is_argsort argsort_stable"
  by (simp add: is_argsort_def argsort_stable_def)

lemma is_argsort_mset: "is_argsort argsort \<Longrightarrow> mset (argsort a) = mset [0..<length a]"
  by (simp add: is_argsort_def)

lemma is_argsort_set:
  assumes "is_argsort argsort"
  shows "set (argsort a) = {..<length a}"
proof -
  have "mset (argsort a) = mset [0..<length a]"
    using assms by (rule is_argsort_mset)
  then have "set (argsort a) = set [0..<length a]"
    by (rule mset_eq_setD)
  then show ?thesis
    by (simp add: lessThan_atLeast0)
qed

lemma is_argsort_rev_desc:
  assumes "is_argsort argsort"
  shows "sorted_wrt (\<lambda>i j. a ! j \<le> a ! i) (rev (argsort a))"
proof -
  have "sorted (map (\<lambda>i. a ! i) (argsort a))"
    using assms by (simp add: is_argsort_def)
  then have "sorted_wrt (\<lambda>i j. a ! i \<le> a ! j) (argsort a)"
    by (simp add: sorted_map)
  then show ?thesis
    by (simp add: sorted_wrt_rev)
qed

lemma mixed_scores_eq:
  assumes "hits \<noteq> []" and "length bm_scores = length hits"
  shows "\<exists>mixed. mixed_scores ar bm_scores hits alpha = Inr mixed
           \<and> length mixed = length hits
           \<and> (\<forall>i < length hits.
                 mixed ! i =
                   f_add ar (f_mul ar alpha (bm_scores ! i))
                     (f_mul ar (f_sub ar 1 alpha)
                        (f_sub ar 1
                           (f_div ar (dist_of (hits ! i))
                              (f_add ar (Max (dist_of ` set hits)) (f_lit ar (1 / 10 ^ 9)))))))"
proof -
  let ?a = "map (\<lambda>b. f_mul ar alpha b) bm_scores"
  let ?b = "map (\<lambda>s. f_mul ar (f_sub ar 1 alpha) s)
              (map (\<lambda>d. f_sub ar 1
                      (f_div ar d (f_add ar (Max (set (map dist_of hits))) (f_lit ar (1 / 10 ^ 9)))))
                 (map dist_of hits))"
  have m: "mixed_scores ar bm_scores hits alpha = Inr (map2 (f_add ar) ?a ?b)"
    using assms by (simp add: mixed_scores_def np_add_def Let_def)
  have l: "length (map2 (f_add ar) ?a ?b) = length hits"
    using assms(2) by simp
  have n: "map2 (f_add ar) ?a ?b ! i =
             f_add ar (f_mul ar alpha (bm_scores ! i))
               (f_mul ar (f_sub ar 1 alpha)
                  (f_sub ar 1
                     (f_div ar (dist_of (hits ! i))
                        (f_add ar (Max (dist_of ` set hits)) (f_lit ar (1 / 10 ^ 9))))))"
    if "i < length hits" for i
    using that assms(2) by simp
  show ?thesis
    using m l n by blast
qed

lemma bm25_mix_eq:
  assumes "is_argsort argsort"
    and "bm25 (map doc hits) query = Inr bm_scores"
    and "mixed_scores ar bm_scores hits alpha = Inr mixed"
    and "length mixed = length hits"
  shows "bm25_mix ar argsort bm25 query hits alpha
           = Inr (map (\<lambda>i. hits ! i) (rev (argsort mixed)))"
proof -
  have "\<forall>i \<in> set (rev (argsort mixed)). i < length hits"
    using assms(4) is_argsort_set [OF assms(1), of mixed] by simp
  then have "gather hits (rev (argsort mixed)) = Inr (map (\<lambda>i. hits ! i) (rev (argsort mixed)))"
    by (rule gather_map)
  then show ?thesis
    using assms(2,3) by (simp add: bm25_mix_def)
qed




text \<open>
  C1, amended. For a non-empty hit list with distances that are not negative, for which
  the lexical scorer returns one score per hit, \<open>bm25_mix\<close> computes, in floating-point
  arithmetic, \<open>mixed(i) = alpha * bm25(i) + (1 - alpha) * sim(i)\<close> with
  \<open>sim(i) = 1 - distance(i) / (max distance + 1e-9)\<close>, and returns the hits in an order
  that is descending in \<open>mixed\<close>. The order of hits of equal mixed score is the one that
  numpy's argsort, reversed, happens to give: nothing holds of it in general. The default
  \<open>alpha\<close> is the float 0.2.
\<close>

theorem bm25_mix_order:
  assumes "hits \<noteq> []"
    and "bm25 (map doc hits) query = Inr bm_scores"
    and "length bm_scores = length hits"
    and "\<forall>h \<in> set hits. 0 \<le> dist_of h"
    and "is_argsort argsort"
  shows "\<exists>mixed order.
           mixed_scores ar bm_scores hits alpha = Inr mixed
         \<and> length mixed = length hits
         \<and> (\<forall>i < length hits.
               mixed ! i =
                 f_add ar (f_mul ar alpha (bm_scores ! i))
                   (f_mul ar (f_sub ar 1 alpha)
                      (f_sub ar 1
                         (f_div ar (dist_of (hits ! i))
                            (f_add ar (Max (dist_of ` set hits)) (f_lit ar (1 / 10 ^ 9)))))))
         \<and> bm25_mix ar argsort bm25 query hits alpha = Inr (map (\<lambda>i. hits ! i) order)
         \<and> mset order = mset [0..<length hits]
         \<and> sorted_wrt (\<lambda>i j. mixed ! j \<le> mixed ! i) order
         \<and> bm25_mix_default ar argsort bm25 query hits
             = bm25_mix ar argsort bm25 query hits (f_lit ar (2 / 10))"
proof -
  obtain mixed where mixed: "mixed_scores ar bm_scores hits alpha = Inr mixed"
      "length mixed = length hits"
      "\<forall>i < length hits.
         mixed ! i =
           f_add ar (f_mul ar alpha (bm_scores ! i))
             (f_mul ar (f_sub ar 1 alpha)
                (f_sub ar 1
                   (f_div ar (dist_of (hits ! i))
                      (f_add ar (Max (dist_of ` set hits)) (f_lit ar (1 / 10 ^ 9))))))"
    using mixed_scores_eq [OF assms(1,3)] by blast
  let ?order = "rev (argsort mixed)"
  have r: "bm25_mix ar argsort bm25 query hits alpha = Inr (map (\<lambda>i. hits ! i) ?order)"
    using assms(5,2) mixed(1,2) by (rule bm25_mix_eq)
  have p: "mset ?order = mset [0..<length hits]"
    using mixed(2) is_argsort_mset [OF assms(5), of mixed] by simp
  have s: "sorted_wrt (\<lambda>i j. mixed ! j \<le> mixed ! i) ?order"
    using assms(5) by (rule is_argsort_rev_desc)
  have d: "bm25_mix_default ar argsort bm25 query hits
             = bm25_mix ar argsort bm25 query hits (f_lit ar (2 / 10))"
    by (simp add: bm25_mix_default_def)
  show ?thesis
    using mixed r p s d by blast
qed

theorem bm25_mix_order_witness:
  "[\<lparr>doc = ''a'', meta = (), dist_of = 0 :: real\<rparr>, \<lparr>doc = ''bb'', meta = (), dist_of = 0\<rparr>,
    \<lparr>doc = ''ccc'', meta = (), dist_of = 0\<rparr>] \<noteq> []
   \<and> stub_bm25 (map doc [\<lparr>doc = ''a'', meta = (), dist_of = 0 :: real\<rparr>,
        \<lparr>doc = ''bb'', meta = (), dist_of = 0\<rparr>, \<lparr>doc = ''ccc'', meta = (), dist_of = 0\<rparr>]) ''q''
       = Inr [1, 2, 3]
   \<and> length [1, 2, 3 :: real] =
       length [\<lparr>doc = ''a'', meta = (), dist_of = 0 :: real\<rparr>,
               \<lparr>doc = ''bb'', meta = (), dist_of = 0\<rparr>, \<lparr>doc = ''ccc'', meta = (), dist_of = 0\<rparr>]
   \<and> list_all (\<lambda>h. 0 \<le> dist_of h)
       [\<lparr>doc = ''a'', meta = (), dist_of = 0 :: real\<rparr>,
        \<lparr>doc = ''bb'', meta = (), dist_of = 0\<rparr>, \<lparr>doc = ''ccc'', meta = (), dist_of = 0\<rparr>]
   \<and> mixed_scores exact [1, 2, 3]
       [\<lparr>doc = ''a'', meta = (), dist_of = 0\<rparr>, \<lparr>doc = ''bb'', meta = (), dist_of = 0\<rparr>,
        \<lparr>doc = ''ccc'', meta = (), dist_of = 0\<rparr>] (2 / 10) = Inr [1, 12 / 10, 14 / 10]
   \<and> bm25_mix exact argsort_stable stub_bm25 ''q''
       [\<lparr>doc = ''a'', meta = (), dist_of = 0\<rparr>, \<lparr>doc = ''bb'', meta = (), dist_of = 0\<rparr>,
        \<lparr>doc = ''ccc'', meta = (), dist_of = 0\<rparr>] (2 / 10) =
       Inr [\<lparr>doc = ''ccc'', meta = (), dist_of = 0\<rparr>, \<lparr>doc = ''bb'', meta = (), dist_of = 0\<rparr>,
            \<lparr>doc = ''a'', meta = (), dist_of = 0\<rparr>]
   \<and> (\<exists>mixed order.
         mixed_scores exact [1, 2, 3]
           [\<lparr>doc = ''a'', meta = (), dist_of = 0\<rparr>, \<lparr>doc = ''bb'', meta = (), dist_of = 0\<rparr>,
            \<lparr>doc = ''ccc'', meta = (), dist_of = 0\<rparr>] (2 / 10) = Inr mixed
       \<and> bm25_mix exact argsort_stable stub_bm25 ''q''
           [\<lparr>doc = ''a'', meta = (), dist_of = 0\<rparr>, \<lparr>doc = ''bb'', meta = (), dist_of = 0\<rparr>,
            \<lparr>doc = ''ccc'', meta = (), dist_of = 0\<rparr>] (2 / 10) =
           Inr (map (\<lambda>i. [\<lparr>doc = ''a'', meta = (), dist_of = 0\<rparr>,
                           \<lparr>doc = ''bb'', meta = (), dist_of = 0\<rparr>,
                           \<lparr>doc = ''ccc'', meta = (), dist_of = 0\<rparr>] ! i) order)
       \<and> sorted_wrt (\<lambda>i j. mixed ! j \<le> mixed ! i) order)"
proof -
  let ?hits = "[\<lparr>doc = ''a'', meta = (), dist_of = 0 :: real\<rparr>,
                \<lparr>doc = ''bb'', meta = (), dist_of = 0\<rparr>, \<lparr>doc = ''ccc'', meta = (), dist_of = 0\<rparr>]"
  have n: "?hits \<noteq> []" by simp
  have b: "stub_bm25 (map doc ?hits) ''q'' = Inr [1, 2, 3]"
    by (simp add: stub_bm25_def)
  have l: "length [1, 2, 3 :: real] = length ?hits" by simp
  have d: "\<forall>h \<in> set ?hits. 0 \<le> dist_of h" by simp
  have la: "list_all (\<lambda>h. 0 \<le> dist_of h) ?hits" by simp
  have ms: "mixed_scores exact [1, 2, 3] ?hits (2 / 10) = Inr [1, 12 / 10, 14 / 10]"
    by (simp add: mixed_scores_def np_add_def exact_def)
  have r: "bm25_mix exact argsort_stable stub_bm25 ''q'' ?hits (2 / 10) =
       Inr [\<lparr>doc = ''ccc'', meta = (), dist_of = 0\<rparr>, \<lparr>doc = ''bb'', meta = (), dist_of = 0\<rparr>,
            \<lparr>doc = ''a'', meta = (), dist_of = 0\<rparr>]"
    by (simp add: mixed_scores_def np_add_def bm25_mix_def stub_bm25_def argsort_stable_def
        exact_def upt_rec)
  obtain mixed order where
    "mixed_scores exact [1, 2, 3] ?hits (2 / 10) = Inr mixed"
    "bm25_mix exact argsort_stable stub_bm25 ''q'' ?hits (2 / 10)
       = Inr (map (\<lambda>i. ?hits ! i) order)"
    "sorted_wrt (\<lambda>i j. mixed ! j \<le> mixed ! i) order"
    using bm25_mix_order
      [of ?hits stub_bm25 "''q''" "[1, 2, 3]" argsort_stable exact "2 / 10",
        OF n b l d is_argsort_stable]
    by blast
  then have "\<exists>mixed order.
         mixed_scores exact [1, 2, 3] ?hits (2 / 10) = Inr mixed
       \<and> bm25_mix exact argsort_stable stub_bm25 ''q'' ?hits (2 / 10)
           = Inr (map (\<lambda>i. ?hits ! i) order)
       \<and> sorted_wrt (\<lambda>i j. mixed ! j \<le> mixed ! i) order"
    by blast
  with n b l la ms r show ?thesis by blast
qed

text \<open>
  C1 as stated fails on ties: two hits with the same mixed score come out in the reverse
  of the order in which they went in, the argsort of two equal scores being \<open>[0, 1]\<close>.
\<close>

theorem bm25_mix_tie_counterexample:
  "mixed_scores exact [1, 1]
     [\<lparr>doc = ''a'', meta = (), dist_of = 0\<rparr>, \<lparr>doc = ''b'', meta = (), dist_of = 0\<rparr>] (2 / 10)
     = Inr [1, 1]
   \<and> argsort_stable [1, 1] = [0, 1]
   \<and> bm25_mix exact argsort_stable stub_bm25 ''q''
     [\<lparr>doc = ''a'', meta = (), dist_of = 0\<rparr>, \<lparr>doc = ''b'', meta = (), dist_of = 0\<rparr>] (2 / 10)
     = Inr [\<lparr>doc = ''b'', meta = (), dist_of = 0\<rparr>, \<lparr>doc = ''a'', meta = (), dist_of = 0\<rparr>]"
  by (simp add: mixed_scores_def np_add_def bm25_mix_def stub_bm25_def argsort_stable_def
      exact_def)

subsection \<open>Claims about token_chunk\<close>

lemma chunk_loop_windows:
  "chunk_loop fuel decode toks max_tokens overlap start chunks =
   map_option (\<lambda>ws. chunks @ map (\<lambda>(s, e). decode (py_slice toks s e)) ws)
     (window_loop fuel (int (length toks)) max_tokens overlap start)"
proof (induction fuel arbitrary: start chunks)
  case 0
  then show ?case by simp
next
  case (Suc fuel)
  show ?case
    by (simp add: Let_def Suc.IH option.map_comp comp_def)
qed

lemma window_loop_more_fuel:
  "window_loop fuel n max_tokens overlap start = Some ws \<Longrightarrow>
   window_loop (fuel + extra) n max_tokens overlap start = Some ws"
proof (induction fuel arbitrary: start ws)
  case 0
  then show ?case by (cases extra) (simp_all split: if_splits)
next
  case (Suc fuel)
  show ?case
  proof (cases "start < n \<and> min (start + max_tokens) n \<noteq> n")
    case False
    with Suc.prems show ?thesis by (auto simp: Let_def split: if_splits)
  next
    case True
    with Suc.prems obtain rest where
      rest: "window_loop fuel n max_tokens overlap (max 0 (min (start + max_tokens) n - overlap))
               = Some rest"
      and ws: "ws = (start, min (start + max_tokens) n) # rest"
      by (auto simp: Let_def)
    from Suc.IH [OF rest] True ws show ?thesis
      by (simp add: Let_def)
  qed
qed

lemma window_loop_bounded:
  assumes "0 \<le> overlap" and "overlap < max_tokens" and "0 \<le> start"
    and "start < n \<longrightarrow> 0 < fuel \<and> n \<le> int fuel * (max_tokens - overlap) + start + overlap"
  shows "\<exists>ws. window_loop fuel n max_tokens overlap start = Some ws
           \<and> length ws \<le> fuel
           \<and> (start < n \<longrightarrow> length (filter (\<lambda>w. snd w = n) ws) = 1 \<and> snd (last ws) = n)
           \<and> (\<not> start < n \<longrightarrow> ws = [])"
  using assms
proof (induction fuel arbitrary: start)
  case 0
  then show ?case by simp
next
  case (Suc fuel)
  show ?case
  proof (cases "start < n")
    case False
    then show ?thesis by simp
  next
    case lt: True
    show ?thesis
    proof (cases "min (start + max_tokens) n = n")
      case True
      with lt show ?thesis by (simp add: Let_def)
    next
      case False
      then have e: "min (start + max_tokens) n = start + max_tokens" and en: "start + max_tokens < n"
        by auto
      let ?next = "max 0 (start + max_tokens - overlap)"
      have nx: "?next = start + (max_tokens - overlap)"
        using Suc.prems(1-3) by simp
      have "0 \<le> ?next" by simp
      moreover have "?next < n \<longrightarrow>
          0 < fuel \<and> n \<le> int fuel * (max_tokens - overlap) + ?next + overlap"
      proof
        assume "?next < n"
        have b: "n \<le> int (Suc fuel) * (max_tokens - overlap) + start + overlap"
          using Suc.prems(4) lt by blast
        have "int (Suc fuel) * (max_tokens - overlap) + start + overlap
              = int fuel * (max_tokens - overlap) + ?next + overlap"
          unfolding nx by (simp add: algebra_simps)
        with b have c: "n \<le> int fuel * (max_tokens - overlap) + ?next + overlap"
          by simp
        have "?next + overlap < n"
          unfolding nx using en by simp
        with c have "0 < int fuel * (max_tokens - overlap)"
          by linarith
        then have "0 < fuel"
          by (cases fuel) simp_all
        with c show "0 < fuel \<and> n \<le> int fuel * (max_tokens - overlap) + ?next + overlap"
          by simp
      qed
      ultimately obtain rest where
        rest: "window_loop fuel n max_tokens overlap ?next = Some rest"
        "length rest \<le> fuel"
        "?next < n \<longrightarrow> length (filter (\<lambda>w. snd w = n) rest) = 1 \<and> snd (last rest) = n"
        "\<not> ?next < n \<longrightarrow> rest = []"
        using Suc.IH [of ?next] Suc.prems(1,2) by blast
      have nn: "?next < n"
        unfolding nx using en Suc.prems(1) by simp
      have ne: "rest \<noteq> []"
        using rest(3) nn by auto
      have w: "window_loop (Suc fuel) n max_tokens overlap start
                = Some ((start, start + max_tokens) # rest)"
        using lt False e rest(1) by (simp add: Let_def)
      show ?thesis
        using w rest(2,3) nn ne en lt by simp
    qed
  qed
qed

lemma step_bound_covers:
  assumes "0 \<le> n" and "overlap < max_tokens"
  shows "n \<le> int (step_bound n max_tokens overlap) * (max_tokens - overlap)"
    and "0 < n \<Longrightarrow> 0 < step_bound n max_tokens overlap"
proof -
  let ?s = "max_tokens - overlap"
  let ?c = "\<lceil>real_of_int n / real_of_int ?s\<rceil>"
  have s: "0 < ?s" using assms(2) by simp
  have "0 \<le> real_of_int n / real_of_int ?s"
    using assms(1) s by simp
  then have "\<lceil>0 :: real\<rceil> \<le> ?c"
    by (rule ceiling_mono)
  then have c0: "0 \<le> ?c"
    by simp
  have rs: "0 < real_of_int ?s"
    using s by simp
  have "real_of_int n / real_of_int ?s \<le> real_of_int ?c"
    by (rule le_of_int_ceiling)
  then have "real_of_int n \<le> real_of_int ?c * real_of_int ?s"
    by (simp only: pos_divide_le_eq [OF rs])
  then have le: "n \<le> ?c * ?s"
    by (metis of_int_le_iff of_int_mult)
  show "n \<le> int (step_bound n max_tokens overlap) * ?s"
    using le c0 by (simp add: step_bound_def)
  show "0 < step_bound n max_tokens overlap" if "0 < n"
  proof -
    have "0 < real_of_int n / real_of_int ?s"
      using that s by simp
    then have "0 < ?c" by (simp add: ceiling_less_iff)
    then show ?thesis by (simp add: step_bound_def)
  qed
qed

text \<open>
  C5, amended. For \<open>0 \<le> overlap < max_tokens\<close> the loop of \<open>token_chunk\<close> returns
  within \<open>ceil(len / (max_tokens - overlap))\<close> executions of its body (that much fuel,
  or more, is enough), and it emits at most that many windows. For a non-empty token
  sequence exactly one emitted window ends at the length of the sequence, and it is the
  last one; for an empty token sequence no window is emitted.
\<close>

theorem token_chunk_terminates:
  assumes "0 \<le> overlap" and "overlap < max_tokens"
    and "step_bound (int (length (encode text))) max_tokens overlap \<le> fuel"
  shows "\<exists>windows.
           window_loop fuel (int (length (encode text))) max_tokens overlap 0 = Some windows
         \<and> token_chunk fuel encode decode text max_tokens overlap
             = Some (map (\<lambda>(s, e). decode (py_slice (encode text) s e)) windows)
         \<and> length windows \<le> step_bound (int (length (encode text))) max_tokens overlap
         \<and> (encode text \<noteq> [] \<longrightarrow>
               length (filter (\<lambda>w. snd w = int (length (encode text))) windows) = 1
             \<and> snd (last windows) = int (length (encode text)))
         \<and> (encode text = [] \<longrightarrow> windows = [])"
proof -
  let ?n = "int (length (encode text))"
  let ?b = "step_bound ?n max_tokens overlap"
  have n0: "0 \<le> ?n" by simp
  have inv: "0 < ?n \<longrightarrow> 0 < ?b \<and> ?n \<le> int ?b * (max_tokens - overlap) + 0 + overlap"
    using step_bound_covers [OF n0 assms(2)] assms(1) by auto
  obtain ws where ws: "window_loop ?b ?n max_tokens overlap 0 = Some ws"
      "length ws \<le> ?b"
      "0 < ?n \<longrightarrow> length (filter (\<lambda>w. snd w = ?n) ws) = 1 \<and> snd (last ws) = ?n"
      "\<not> 0 < ?n \<longrightarrow> ws = []"
    using window_loop_bounded [OF assms(1,2) order_refl inv] by blast
  obtain extra where fuel: "fuel = ?b + extra"
    using assms(3) le_Suc_ex by blast
  have w: "window_loop fuel ?n max_tokens overlap 0 = Some ws"
    unfolding fuel using ws(1) by (rule window_loop_more_fuel)
  have t: "token_chunk fuel encode decode text max_tokens overlap
             = Some (map (\<lambda>(s, e). decode (py_slice (encode text) s e)) ws)"
    using w by (simp add: token_chunk_def chunk_loop_windows)
  show ?thesis
    using w t ws(2-4) by auto
qed

theorem token_chunk_terminates_witness:
  "(0::int) \<le> 1 \<and> (1::int) < 4
   \<and> step_bound (int (length (stub_encode ''abcdefg''))) 4 1 \<le> 3
   \<and> token_chunk 3 stub_encode stub_decode ''abcdefg'' 4 1 = Some [''abcd'', ''defg'']
   \<and> (\<exists>windows.
         window_loop 3 (int (length (stub_encode ''abcdefg''))) 4 1 0 = Some windows
       \<and> length windows \<le> step_bound (int (length (stub_encode ''abcdefg''))) 4 1
       \<and> length (filter (\<lambda>w. snd w = int (length (stub_encode ''abcdefg''))) windows) = 1)"
proof -
  have o: "(0::int) \<le> 1" by simp
  have m: "(1::int) < 4" by simp
  have b: "step_bound (int (length (stub_encode ''abcdefg''))) 4 1 \<le> 3"
    by (simp add: step_bound_def stub_encode_def)
  have r: "token_chunk 3 stub_encode stub_decode ''abcdefg'' 4 1 = Some [''abcd'', ''defg'']"
    by (simp add: token_chunk_def stub_encode_def stub_decode_def py_slice_def numeral_3_eq_3)
  have ne: "stub_encode ''abcdefg'' \<noteq> []"
    by (simp add: stub_encode_def)
  have "\<exists>windows.
         window_loop 3 (int (length (stub_encode ''abcdefg''))) 4 1 0 = Some windows
       \<and> length windows \<le> step_bound (int (length (stub_encode ''abcdefg''))) 4 1
       \<and> length (filter (\<lambda>w. snd w = int (length (stub_encode ''abcdefg''))) windows) = 1"
    using token_chunk_terminates [of 1 4 stub_encode "''abcdefg''" 3 stub_decode, OF o m b] ne
    by blast
  with o m b r show ?thesis by blast
qed

text \<open>
  C5 as stated fails for the empty text: the loop body never runs and no window is
  emitted, so no emitted window ends at the length of the token sequence.
\<close>

theorem token_chunk_empty_counterexample:
  "step_bound (int (length (stub_encode ''''))) 400 80 = 0
   \<and> window_loop 0 (int (length (stub_encode ''''))) 400 80 0 = Some []
   \<and> token_chunk 0 stub_encode stub_decode '''' 400 80 = Some []"
  by (simp add: step_bound_def token_chunk_def stub_encode_def)


text \<open>
  C4 as stated fails: a call with \<open>overlap \<ge> max_tokens\<close> on a short text returns its
  single chunk.
\<close>

theorem token_chunk_overlap_counterexample:
  "token_chunk 1 stub_encode stub_decode ''ab'' 3 5 = Some [''ab'']"
  by (simp add: token_chunk_def stub_encode_def stub_decode_def py_slice_def)

lemma py_slice_all: "int (length xs) \<le> j \<Longrightarrow> py_slice xs 0 j = xs"
  by (simp add: py_slice_def Let_def)

text \<open>
  C4, amended. \<open>token_chunk\<close> does not compare \<open>overlap\<close> with \<open>max_tokens\<close> and
  rejects nothing: with \<open>overlap \<ge> max_tokens\<close> and a token sequence of at most
  \<open>max_tokens\<close> tokens it returns, after at most one execution of the loop body, the
  whole text as a single chunk, and no chunk for an empty token sequence.
\<close>

theorem token_chunk_no_validation:
  assumes "max_tokens \<le> overlap"
    and "int (length (encode text)) \<le> max_tokens"
    and "0 < fuel"
  shows "token_chunk fuel encode decode text max_tokens overlap
           = Some (if encode text = [] then [] else [decode (encode text)])"
proof -
  obtain f where f: "fuel = Suc f"
    using assms(3) by (cases fuel) simp_all
  have m: "min max_tokens (int (length (encode text))) = int (length (encode text))"
    using assms(2) by simp
  show ?thesis
    unfolding f token_chunk_def
    by (simp add: Let_def m py_slice_all)
qed

theorem token_chunk_no_validation_witness:
  "(3::int) \<le> 3 \<and> int (length (stub_encode ''abc'')) \<le> 3 \<and> (0::nat) < 2
   \<and> token_chunk 2 stub_encode stub_decode ''abc'' 3 3 = Some [''abc'']"
proof -
  have o: "(3::int) \<le> 3" by simp
  have l: "int (length (stub_encode ''abc'')) \<le> 3"
    by (simp add: stub_encode_def)
  have f: "(0::nat) < 2" by simp
  show ?thesis
    using o l f token_chunk_no_validation [of 3 3 stub_encode "''abc''" 2 stub_decode, OF o l f]
    by (simp add: stub_encode_def stub_decode_def)
qed

text \<open>
  With \<open>overlap \<ge> max_tokens\<close> and more than \<open>max_tokens\<close> tokens the loop starts every
  window at 0 and never ends: it runs out of every amount of fuel.
\<close>

lemma chunk_loop_diverges:
  assumes "max_tokens \<le> overlap" and "max_tokens < int (length toks)" and "toks \<noteq> []"
  shows "chunk_loop fuel decode toks max_tokens overlap 0 chunks = None"
  using assms
proof (induction fuel arbitrary: chunks)
  case 0
  then show ?case by simp
next
  case (Suc fuel)
  have m: "min max_tokens (int (length toks)) = max_tokens"
    using Suc.prems(2) by simp
  have z: "max 0 (max_tokens - overlap) = 0"
    using Suc.prems(1) by simp
  show ?case
    using Suc.prems Suc.IH by (simp add: Let_def m z)
qed

end
